theory Spec2Isabelle
  imports Main "HOL-Library.Word"
begin

unbundle bit_operations_syntax

section \<open>Values\<close>

text \<open>
  Keys and values of the dictionary are Go \<^verbatim>\<open>interface{}\<close> values. The datatype below
  lists the dynamic values the package tells apart:
  \<^item> \<open>VNil\<close> is the nil interface;
  \<^item> \<open>VInt\<close>, \<open>VUint\<close>, \<open>VFloat\<close> carry the Go type next to the number. A float is carried
    as the text \<^verbatim>\<open>strconv.FormatFloat(x, 'f', -1, 64)\<close> prints for it (the shortest decimal
    that reads back as the same float), since that text is all the package ever asks of it;
  \<^item> \<open>VStringer t s\<close> is a value of a user type implementing \<^verbatim>\<open>Stringer\<close> (such as
    \<^verbatim>\<open>testDevice\<close> of the tests): \<open>t\<close> names the type and the value, \<open>s\<close> is what its
    \<^verbatim>\<open>String()\<close> method returns;
  \<^item> \<open>VItem k v\<close> is an \<^verbatim>\<open>Item{Key: k, Value: v}\<close> struct;
  \<^item> \<open>VSlice\<close> is a slice or an array with its elements boxed, \<open>None\<close> being the nil slice;
  \<^item> \<open>VMap ok kvs\<close> is a map: \<open>ok\<close> is what \<^verbatim>\<open>isKeyType\<close> answers for the static key type
    of the map, \<open>kvs\<close> are its entries in the order \<^verbatim>\<open>MapRange\<close> happens to visit them;
  \<^item> \<open>VChan xs\<close> is a channel from which \<open>xs\<close> are received before it is closed;
  \<^item> \<open>VOther n\<close> is any other value (a bool, a struct, a pointer, ...), told apart by \<open>n\<close>.
\<close>

datatype ikind = KInt | KInt8 | KInt16 | KInt32 | KInt64
datatype ukind = KUint | KUint8 | KUint16 | KUint32 | KUint64
datatype fkind = KFloat32 | KFloat64

datatype val =
    VNil
  | VInt ikind int
  | VUint ukind nat
  | VFloat fkind string
  | VString string
  | VStringer nat string
  | VItem val val
  | VSlice "val list option"
  | VMap bool "(val \<times> val) list"
  | VChan "val list"
  | VOther nat

text \<open>\<^verbatim>\<open>Item\<close> of conv.go: a key-value pair.\<close>

datatype Item = Item (Key: val) (Value: val)

text \<open>Run-time panics of the Go code, as values.\<close>

datatype panic = IndexOutOfRange | NegativeLen | NilDereference

section \<open>Key codec (key.go, conv.go)\<close>

text \<open>\<^verbatim>\<open>strconv.FormatUint(n, 10)\<close> and \<^verbatim>\<open>strconv.FormatInt(i, 10)\<close>.\<close>

definition digit :: "nat \<Rightarrow> char" where
  "digit n = ''0123456789'' ! n"

fun FormatUint :: "nat \<Rightarrow> string" where
  "FormatUint n = (if n < 10 then [digit n] else FormatUint (n div 10) @ [digit (n mod 10)])"

declare FormatUint.simps [simp del]

definition FormatInt :: "int \<Rightarrow> string" where
  "FormatInt i = (if i < 0 then CHR ''-'' # FormatUint (nat (- i)) else FormatUint (nat i))"

text \<open>
  \<^verbatim>\<open>isValidKeyType\<close>: floats, signed and unsigned integers, strings and Stringers are key
  types; nothing else is (the nil interface matches no case of the type switch).
\<close>

fun isValidKeyType :: "val \<Rightarrow> bool" where
  "isValidKeyType (VFloat _ _) = True"
| "isValidKeyType (VInt _ _) = True"
| "isValidKeyType (VUint _ _) = True"
| "isValidKeyType (VString _) = True"
| "isValidKeyType (VStringer _ _) = True"
| "isValidKeyType _ = False"

text \<open>\<^verbatim>\<open>toString\<close>: the canonical text of a value; the empty string where no case matches.\<close>

fun toString :: "val \<Rightarrow> string" where
  "toString (VFloat _ s) = s"
| "toString (VInt _ i) = FormatInt i"
| "toString (VUint _ n) = FormatUint n"
| "toString (VString s) = s"
| "toString (VStringer _ s) = s"
| "toString _ = []"

text \<open>
  \<^verbatim>\<open>hash/fnv\<close>'s \<^verbatim>\<open>New64a\<close>, \<^verbatim>\<open>Write\<close> and \<^verbatim>\<open>Sum64\<close>: 64-bit FNV-1a over the bytes of the
  text. Multiplication on \<open>64 word\<close> wraps as Go's \<^verbatim>\<open>uint64\<close> does. \<^verbatim>\<open>Write\<close> never returns
  an error.
\<close>

definition fnv_offset64 :: "64 word" where
  "fnv_offset64 = 14695981039346656037"

definition fnv_prime64 :: "64 word" where
  "fnv_prime64 = 1099511628211"

definition fnv1a :: "string \<Rightarrow> 64 word" where
  "fnv1a s = foldl (\<lambda>h c. (h XOR of_char c) * fnv_prime64) fnv_offset64 s"

record Key =
  ID :: "64 word"
  Name :: string

text \<open>\<^verbatim>\<open>MakeKey\<close>: \<open>None\<close> is the nil \<^verbatim>\<open>*Key\<close>.\<close>

definition MakeKey :: "val \<Rightarrow> Key option" where
  "MakeKey v =
     (if \<not> isValidKeyType v then None
      else let name = toString v in
        if name = [] then None
        else Some \<lparr>ID = fnv1a name, Name = name\<rparr>)"

section \<open>The container (dict.go)\<close>

text \<open>
  The struct \<^verbatim>\<open>Dict\<close>. The fields carry the suffix \<open>_d\<close>. The two counters are \<^verbatim>\<open>int64\<close>
  in the source and unbounded integers here: every operation moves a counter by one at
  most, so a counter that starts at zero needs \<open>2 ^ 63\<close> calls before it could wrap.
  Go's \<^verbatim>\<open>int\<close>, which \<^verbatim>\<open>Len\<close> and \<^verbatim>\<open>Version\<close> convert the counters to, is taken to be
  64 bits wide.
  The value index is an allocated map, as \<^verbatim>\<open>New\<close> and \<^verbatim>\<open>Clear\<close> make it; an entry
  \<open>Some VNil\<close> is a key stored with the nil value. The lock \<^verbatim>\<open>mu\<close> has no part in a run
  of one caller and is left out.

  A \<^verbatim>\<open>*Dict\<close> is a \<open>Dict option\<close>, \<open>None\<close> being the nil pointer. A method takes the
  receiver as it is before the call and returns, next to its result, the receiver as it
  is after the call.
\<close>

record Dict =
  size_d :: int
  version_d :: int
  keys_d :: "Key list"
  values_d :: "64 word \<rightharpoonup> val"

definition Version :: "Dict \<Rightarrow> int" where
  "Version d = version_d d"

definition Len :: "Dict \<Rightarrow> int" where
  "Len d = size_d d"

text \<open>\<^verbatim>\<open>return d == nil || d.Len() == 0\<close>\<close>

definition IsEmpty :: "Dict option \<Rightarrow> bool" where
  "IsEmpty d = (case d of None \<Rightarrow> True | Some s \<Rightarrow> Len s = 0)"

text \<open>Reading a Go map at a missing key gives the zero value, here the nil interface.\<close>

definition index :: "(64 word \<rightharpoonup> val) \<Rightarrow> 64 word \<Rightarrow> val" where
  "index m h = (case m h of None \<Rightarrow> VNil | Some v \<Rightarrow> v)"

text \<open>\<^verbatim>\<open>&Dict{values: make(map[uint64]interface{})}\<close>, the container \<^verbatim>\<open>New\<close> starts from.\<close>

definition empty_Dict :: Dict where
  "empty_Dict = \<lparr>size_d = 0, version_d = 0, keys_d = [], values_d = Map.empty\<rparr>"

text \<open>
  \<^verbatim>\<open>Set\<close>. The first argument stands for \<^verbatim>\<open>reflect.DeepEqual\<close> on the two values. On the
  nil receiver \<^verbatim>\<open>Set\<close> works on a fresh container (\<^verbatim>\<open>New()\<close> with no argument) and returns
  it; the caller's nil pointer stays nil. The result is the container the returned pointer
  refers to, which for a receiver that is not nil is the receiver itself after the call.
\<close>

definition Set :: "(val \<Rightarrow> val \<Rightarrow> bool) \<Rightarrow> Dict option \<Rightarrow> val \<Rightarrow> val \<Rightarrow> Dict" where
  "Set DeepEqual d key v =
     (let d = (case d of None \<Rightarrow> empty_Dict | Some s \<Rightarrow> s) in
      case MakeKey key of
        None \<Rightarrow> d
      | Some k \<Rightarrow>
         (case values_d d (ID k) of
            Some cur \<Rightarrow>
              let d = d\<lparr>values_d := (values_d d)(ID k \<mapsto> v)\<rparr> in
              if \<not> DeepEqual v cur then d\<lparr>version_d := version_d d + 1\<rparr> else d
          | None \<Rightarrow>
              d\<lparr>keys_d := keys_d d @ [k],
                values_d := (values_d d)(ID k \<mapsto> v),
                size_d := size_d d + 1,
                version_d := version_d d + 1\<rparr>))"

text \<open>\<^verbatim>\<open>GetKeyID\<close>: the identity's hash and whether the value index has it.\<close>

definition GetKeyID :: "Dict option \<Rightarrow> val \<Rightarrow> 64 word \<times> bool" where
  "GetKeyID d key =
     (if IsEmpty d then (0, False)
      else case MakeKey key of
        None \<Rightarrow> (0, False)
      | Some k \<Rightarrow> (ID k, values_d (the d) (ID k) \<noteq> None))"

text \<open>
  \<^verbatim>\<open>Get\<close>. The variadic \<^verbatim>\<open>alt\<close> is a slice: \<open>None\<close> when the call passes no alternate (the
  nil slice), \<open>Some xs\<close> otherwise. \<^verbatim>\<open>alt[0]\<close> on an empty slice that is not nil panics.
\<close>

definition Get :: "Dict option \<Rightarrow> val \<Rightarrow> val list option \<Rightarrow> panic + val" where
  "Get d key alt =
     (if IsEmpty d then Inr VNil
      else case GetKeyID d key of
        (h, True) \<Rightarrow> Inr (index (values_d (the d)) h)
      | (h, False) \<Rightarrow>
         (case alt of
            None \<Rightarrow> Inr VNil
          | Some [] \<Rightarrow> Inl IndexOutOfRange
          | Some (a # _) \<Rightarrow> Inr a))"

text \<open>\<^verbatim>\<open>Key\<close>: membership.\<close>

definition Key_d :: "Dict option \<Rightarrow> val \<Rightarrow> bool" where
  "Key_d d key = snd (GetKeyID d key)"

text \<open>Reading a slice at an index: Go panics outside \<open>0 \<le> i < len\<close>.\<close>

definition at :: "'a list \<Rightarrow> int \<Rightarrow> panic + 'a" where
  "at xs i = (if 0 \<le> i \<and> i < int (length xs) then Inr (xs ! nat i) else Inl IndexOutOfRange)"

text \<open>
  \<^verbatim>\<open>deleteItem\<close>. The guard reads the size counter; \<^verbatim>\<open>d.keys[idx]\<close> reads the order
  sequence. \<^verbatim>\<open>copy\<close> moves the keys after \<open>idx\<close> one place down and the last slot is cut off.
\<close>

definition deleteItem :: "Dict option \<Rightarrow> int \<Rightarrow> panic + Dict option" where
  "deleteItem d idx =
     (if IsEmpty d then Inr d
      else if idx \<ge> Len (the d) then Inr d
      else let s = the d in
        case at (keys_d s) idx of
          Inl p \<Rightarrow> Inl p
        | Inr k \<Rightarrow>
            let l = int (length (keys_d s)) in
            Inr (Some (s\<lparr>values_d := (values_d s)(ID k := None),
                          keys_d := take (nat idx) (keys_d s) @ drop (nat idx + 1) (keys_d s),
                          size_d := l - 1,
                          version_d := version_d s + 1\<rparr>)))"

text \<open>
  The loop of \<^verbatim>\<open>Del\<close>: \<^verbatim>\<open>for i := range d.keys { if d.keys[i].ID == id { idx = i; break } }\<close>,
  from position \<open>i\<close> on; \<open>None\<close> when the loop ends without a match.
\<close>

fun Del_loop :: "Key list \<Rightarrow> 64 word \<Rightarrow> nat \<Rightarrow> nat option" where
  "Del_loop [] h i = None"
| "Del_loop (k # ks) h i = (if ID k = h then Some i else Del_loop ks h (Suc i))"

text \<open>
  \<^verbatim>\<open>Del\<close>. \<^verbatim>\<open>var idx int\<close> starts at zero and keeps that value when the loop finds nothing.
  \<^verbatim>\<open>Del\<close> returns true once the position is confirmed, whatever \<^verbatim>\<open>deleteItem\<close> then does.
\<close>

definition Del :: "Dict option \<Rightarrow> val \<Rightarrow> panic + (bool \<times> Dict option)" where
  "Del d key =
     (case GetKeyID d key of
        (h, False) \<Rightarrow> Inr (False, d)
      | (h, True) \<Rightarrow>
          let ks = keys_d (the d);
              idx = (case Del_loop ks h 0 of None \<Rightarrow> 0 | Some i \<Rightarrow> int i) in
          if idx \<ge> int (length ks) then Inr (False, d)
          else case at ks idx of
            Inl p \<Rightarrow> Inl p
          | Inr k \<Rightarrow>
              if ID k \<noteq> h then Inr (False, d)
              else case deleteItem d idx of
                Inl p \<Rightarrow> Inl p
              | Inr d' \<Rightarrow> Inr (True, d'))"

text \<open>
  \<^verbatim>\<open>Pop\<close>. The source calls \<^verbatim>\<open>d.Get(key, alt)\<close>, not \<^verbatim>\<open>d.Get(key, alt...)\<close>: the whole
  slice \<^verbatim>\<open>alt\<close> of \<^verbatim>\<open>Pop\<close> is the one alternate \<^verbatim>\<open>Get\<close> receives. Boxed in an interface, a
  slice is never equal to nil, even the nil slice.
\<close>

definition Pop :: "Dict option \<Rightarrow> val \<Rightarrow> val list option \<Rightarrow> panic + (val \<times> Dict option)" where
  "Pop d key alt =
     (case Get d key (Some [VSlice alt]) of
        Inl p \<Rightarrow> Inl p
      | Inr v \<Rightarrow>
          if v \<noteq> VNil then
            (case Del d key of
               Inl p \<Rightarrow> Inl p
             | Inr (_, d') \<Rightarrow> Inr (v, d'))
          else Inr (v, d))"

text \<open>\<^verbatim>\<open>PopItem\<close>: \<open>None\<close> is the nil \<^verbatim>\<open>*Item\<close>.\<close>

definition PopItem :: "Dict option \<Rightarrow> panic + (Item option \<times> Dict option)" where
  "PopItem d =
     (if IsEmpty d then Inr (None, d)
      else let size = int (length (keys_d (the d))) in
        if size = 0 then Inr (None, d)
        else case at (keys_d (the d)) (size - 1) of
          Inl p \<Rightarrow> Inl p
        | Inr key \<Rightarrow>
            let v = index (values_d (the d)) (ID key) in
            case deleteItem d (size - 1) of
              Inl p \<Rightarrow> Inl p
            | Inr d' \<Rightarrow> Inr (Some (Item (VString (Name key)) v), d'))"

text \<open>\<^verbatim>\<open>Clear\<close>\<close>

definition Clear :: "Dict option \<Rightarrow> bool \<times> Dict option" where
  "Clear d =
     (if IsEmpty d then (False, d)
      else (True, Some ((the d)\<lparr>size_d := 0,
                                 version_d := version_d (the d) + 1,
                                 keys_d := [],
                                 values_d := Map.empty\<rparr>)))"



text \<open>
  A receive-only channel as its consumer sees it: \<open>NilChan\<close> is the nil channel,
  \<open>ClosedChan\<close> a channel closed before it is handed out, \<open>Producer xs\<close> a channel whose
  producer goroutine owns the items \<open>xs\<close>, sends them in order and then closes it.
\<close>

datatype 'a chan = NilChan | ClosedChan | Producer "'a list"

text \<open>
  \<^verbatim>\<open>Items\<close>. The slice \<^verbatim>\<open>items\<close> (\<open>Items_snapshot\<close>) is filled from the container
  before the goroutine starts, and the goroutine reads nothing but that slice.
\<close>

definition Items_snapshot :: "Dict \<Rightarrow> Item list" where
  "Items_snapshot s = map (\<lambda>k. Item (VString (Name k)) (index (values_d s) (ID k))) (keys_d s)"

definition Items :: "Dict option \<Rightarrow> Item chan" where
  "Items d = (if IsEmpty d then ClosedChan else Producer (Items_snapshot (the d)))"

text \<open>
  What \<^verbatim>\<open>for item := range ch\<close> receives when nothing else happens meanwhile. On the nil
  channel the loop would block for ever; \<open>[]\<close> stands there, and \<^verbatim>\<open>Items\<close> never returns
  that channel.
\<close>

fun range_chan :: "'a chan \<Rightarrow> 'a list" where
  "range_chan NilChan = []"
| "range_chan ClosedChan = []"
| "range_chan (Producer xs) = xs"

section \<open>Iterable adapter (conv.go) and bulk input\<close>

text \<open>
  \<^verbatim>\<open>toIterable\<close>: the items its goroutine sends before it closes the channel, in order.
  An \<^verbatim>\<open>Item\<close> is sent as it is; the nil interface sends nothing; a map sends its entries
  when its key type is a key type; a channel sends what it receives, with no key; a slice
  or an array sends its elements under their positions; anything else is sent once, with
  no key.
\<close>

fun toIterable :: "val \<Rightarrow> Item list" where
  "toIterable (VItem k v) = [Item k v]"
| "toIterable VNil = []"
| "toIterable (VMap ok kvs) = (if \<not> ok then [] else map (\<lambda>(k, v). Item k v) kvs)"
| "toIterable (VChan xs) = map (\<lambda>x. Item VNil x) xs"
| "toIterable (VSlice None) = []"
| "toIterable (VSlice (Some xs)) = map (\<lambda>(j, x). Item (VInt KInt (int j)) x) (enumerate 0 xs)"
| "toIterable v = [Item VNil v]"

text \<open>
  An argument of \<^verbatim>\<open>Update\<close> and \<^verbatim>\<open>New\<close>: either a \<^verbatim>\<open>*Dict\<close>, given as that container is
  when the loop reaches it, or any other value.
\<close>

datatype arg = ADict "Dict option" | AVal val

text \<open>The body of the inner loop over \<^verbatim>\<open>toIterable\<close>: a pair with no key gets \<^verbatim>\<open>d.Len()\<close>.\<close>

definition Update_item :: "(val \<Rightarrow> val \<Rightarrow> bool) \<Rightarrow> Dict \<Rightarrow> Item \<Rightarrow> Dict" where
  "Update_item DeepEqual d item =
     (let key = (if Key item = VNil then VInt KInt (Len d) else Key item)
      in Set DeepEqual (Some d) key (Value item))"

text \<open>The body of the outer loop, for one argument.\<close>

fun Update_arg :: "(val \<Rightarrow> val \<Rightarrow> bool) \<Rightarrow> Dict \<Rightarrow> arg \<Rightarrow> Dict" where
  "Update_arg DeepEqual d (ADict other) =
     foldl (\<lambda>d item. Set DeepEqual (Some d) (Key item) (Value item)) d (range_chan (Items other))"
| "Update_arg DeepEqual d (AVal v) =
     foldl (Update_item DeepEqual) d (toIterable v)"

text \<open>
  \<^verbatim>\<open>Update\<close>. With no argument (\<^verbatim>\<open>vargs == nil\<close>) it returns before it touches the receiver;
  otherwise \<^verbatim>\<open>d.Version()\<close> dereferences it.
\<close>

definition Update ::
  "(val \<Rightarrow> val \<Rightarrow> bool) \<Rightarrow> Dict option \<Rightarrow> arg list option \<Rightarrow> panic + (bool \<times> Dict option)" where
  "Update DeepEqual d vargs =
     (case vargs of
        None \<Rightarrow> Inr (False, d)
      | Some as \<Rightarrow>
         (case d of
            None \<Rightarrow> Inl NilDereference
          | Some s \<Rightarrow>
              let ver = Version s;
                  s' = foldl (Update_arg DeepEqual) s as
              in Inr (ver \<noteq> Version s', Some s')))"

text \<open>
  \<^verbatim>\<open>New\<close>: \<^verbatim>\<open>Update\<close> on a fresh container, which is not nil, so that the run is the loop
  of \<^verbatim>\<open>Update\<close> or, with no argument, nothing.
\<close>

definition New :: "(val \<Rightarrow> val \<Rightarrow> bool) \<Rightarrow> arg list option \<Rightarrow> Dict" where
  "New DeepEqual vargs =
     (case vargs of
        None \<Rightarrow> empty_Dict
      | Some as \<Rightarrow> foldl (Update_arg DeepEqual) empty_Dict as)"

section \<open>Notions the properties are stated with\<close>

text \<open>
  The invariants of the data model: the order sequence is as long as the size counter
  says, which is the number of entries of the value index; no hash appears twice in the
  order sequence; the hashes of the order sequence are the keys of the value index.
\<close>

definition dict_inv :: "Dict \<Rightarrow> bool" where
  "dict_inv d \<longleftrightarrow>
     int (length (keys_d d)) = size_d d \<and>
     size_d d = int (card (dom (values_d d))) \<and>
     distinct (map ID (keys_d d)) \<and>
     ID ` set (keys_d d) = dom (values_d d)"

text \<open>A caller that calls \<^verbatim>\<open>PopItem\<close> \<open>n\<close> times in a row and keeps what each call returns.\<close>

fun PopItems :: "nat \<Rightarrow> Dict option \<Rightarrow> panic + (Item option list \<times> Dict option)" where
  "PopItems 0 d = Inr ([], d)"
| "PopItems (Suc n) d =
     (case PopItem d of
        Inl p \<Rightarrow> Inl p
      | Inr (r, d') \<Rightarrow>
         (case PopItems n d' of
            Inl p \<Rightarrow> Inl p
          | Inr (rs, d'') \<Rightarrow> Inr (r # rs, d'')))"



text \<open>
  A consumer that drains a stream while the container is written to. The world is the
  container, the stream in flight and what the consumer has received so far. A receive
  \<^verbatim>\<open>item, ok := <-ch\<close> blocks for ever on the nil channel (\<open>None\<close>), reports the end on a
  closed channel, and otherwise takes the producer's next item; a producer with nothing
  left closes the channel. Each call runs under the container's lock and is one step.
\<close>

fun recv :: "'a chan \<Rightarrow> ('a option \<times> 'a chan) option" where
  "recv NilChan = None"
| "recv ClosedChan = Some (None, ClosedChan)"
| "recv (Producer []) = Some (None, ClosedChan)"
| "recv (Producer (x # xs)) = Some (Some x, Producer xs)"






text \<open>
  The container after \<^verbatim>\<open>New().Set("A", 1).Set("B", 2)\<close>, and the same with \<open>n\<close> stored into
  its size counter, as the test \<^verbatim>\<open>TestPopItemDoesNotPanicWithStaleSize\<close> stores into the
  counter of a container: for \<open>n \<noteq> 2\<close> the counter has drifted from the order sequence.
\<close>

definition AB :: Dict where
  "AB =
     \<lparr>size_d = 2, version_d = 2,
      keys_d = [\<lparr>ID = fnv1a ''A'', Name = ''A''\<rparr>, \<lparr>ID = fnv1a ''B'', Name = ''B''\<rparr>],
      values_d = [fnv1a ''A'' \<mapsto> VInt KInt 1, fnv1a ''B'' \<mapsto> VInt KInt 2]\<rparr>"

definition drifted :: "int \<Rightarrow> Dict" where
  "drifted n = AB\<lparr>size_d := n\<rparr>"


section \<open>Basic facts\<close>

lemma IsEmpty_None [simp]: "IsEmpty None"
  by (simp add: IsEmpty_def)

lemma IsEmpty_Some [simp]: "IsEmpty (Some s) \<longleftrightarrow> size_d s = 0"
  by (simp add: IsEmpty_def Len_def)

lemma dict_inv_finite: "dict_inv s \<Longrightarrow> finite (dom (values_d s))"
  unfolding dict_inv_def by (metis finite_imageI finite_set)

lemma dict_inv_size_zero: "dict_inv s \<Longrightarrow> size_d s = 0 \<longleftrightarrow> keys_d s = []"
  unfolding dict_inv_def by auto

lemma dict_inv_empty_Dict: "dict_inv empty_Dict"
  by (simp add: dict_inv_def empty_Dict_def)

lemma Set_None: "Set deq None k v = Set deq (Some empty_Dict) k v"
  by (simp add: Set_def)

lemma Set_invalid: "MakeKey k = None \<Longrightarrow> Set deq (Some s) k v = s"
  by (simp add: Set_def)

lemma Set_old:
  "MakeKey k = Some key \<Longrightarrow> values_d s (ID key) = Some cur \<Longrightarrow>
   Set deq (Some s) k v =
     s\<lparr>values_d := (values_d s)(ID key \<mapsto> v),
       version_d := (if deq v cur then version_d s else version_d s + 1)\<rparr>"
  by (simp add: Set_def Let_def)

lemma Set_new:
  "MakeKey k = Some key \<Longrightarrow> values_d s (ID key) = None \<Longrightarrow>
   Set deq (Some s) k v =
     s\<lparr>keys_d := keys_d s @ [key],
       values_d := (values_d s)(ID key \<mapsto> v),
       size_d := size_d s + 1,
       version_d := version_d s + 1\<rparr>"
  by (simp add: Set_def)

lemma dict_inv_Set: 
  assumes "dict_inv s" shows "dict_inv (Set deq (Some s) k v)"
proof (cases "MakeKey k")
  case None
  then show ?thesis using assms by (simp add: Set_invalid)
next
  case (Some key)
  show ?thesis
  proof (cases "values_d s (ID key)")
    case None
    have fin: "finite (dom (values_d s))" using assms by (rule dict_inv_finite)
    have notin: "ID key \<notin> dom (values_d s)" using None by (simp add: domIff)
    show ?thesis
      using assms fin notin
      by (auto simp: Set_new [OF Some None] dict_inv_def)
  next
    case (Some cur)
    have "ID key \<in> dom (values_d s)" using Some by (simp add: domIff)
    then have "insert (ID key) (dom (values_d s)) = dom (values_d s)" by auto
    then show ?thesis
      using assms
      by (simp add: Set_old [OF \<open>MakeKey k = Some key\<close> Some] dict_inv_def)
  qed
qed

lemma dict_inv_Set_None: "dict_inv (Set deq None k v)"
  by (simp add: Set_None dict_inv_Set dict_inv_empty_Dict)

lemma at_in_range: "0 \<le> i \<Longrightarrow> i < int (length xs) \<Longrightarrow> at xs i = Inr (xs ! nat i)"
  by (simp add: at_def)

lemma deleteItem_skip:
  "size_d s = 0 \<or> idx \<ge> size_d s \<Longrightarrow> deleteItem (Some s) idx = Inr (Some s)"
  by (auto simp: deleteItem_def Len_def)

lemma deleteItem_None: "deleteItem None idx = Inr None"
  by (simp add: deleteItem_def)

lemma deleteItem_in_range:
  "size_d s \<noteq> 0 \<Longrightarrow> idx < size_d s \<Longrightarrow> 0 \<le> idx \<Longrightarrow> idx < int (length (keys_d s)) \<Longrightarrow>
   deleteItem (Some s) idx =
     Inr (Some (s\<lparr>values_d := (values_d s)(ID (keys_d s ! nat idx) := None),
                 keys_d := take (nat idx) (keys_d s) @ drop (nat idx + 1) (keys_d s),
                 size_d := int (length (keys_d s)) - 1,
                 version_d := version_d s + 1\<rparr>))"
  by (simp add: deleteItem_def Len_def at_in_range Let_def)

lemma deleteItem_no_panic:
  "0 \<le> idx \<Longrightarrow> idx < int (length (keys_d s)) \<Longrightarrow> \<exists>s'. deleteItem (Some s) idx = Inr (Some s')"
  by (cases "size_d s = 0 \<or> idx \<ge> size_d s")
     (auto simp: deleteItem_skip deleteItem_in_range)

lemma dict_inv_delete:
  assumes inv: "dict_inv s" and i: "i < length (keys_d s)"
  shows "dict_inv (s\<lparr>values_d := (values_d s)(ID (keys_d s ! i) := None),
                    keys_d := take i (keys_d s) @ drop (Suc i) (keys_d s),
                    size_d := int (length (keys_d s)) - 1,
                    version_d := n\<rparr>)"
proof -
  define xs where "xs = take i (keys_d s)"
  define y where "y = keys_d s ! i"
  define zs where "zs = drop (Suc i) (keys_d s)"
  have ks: "keys_d s = xs @ y # zs"
    unfolding xs_def y_def zs_def using i by (rule id_take_nth_drop)
  have fin: "finite (dom (values_d s))" using inv by (rule dict_inv_finite)
  from inv ks have dist: "distinct (map ID xs)" "distinct (map ID zs)"
    "ID y \<notin> ID ` set xs" "ID y \<notin> ID ` set zs" "ID ` set xs \<inter> ID ` set zs = {}"
    by (auto simp: dict_inv_def)
  from inv ks have dom: "dom (values_d s) = insert (ID y) (ID ` set xs \<union> ID ` set zs)"
    by (auto simp: dict_inv_def)
  from inv ks have card: "card (dom (values_d s)) = Suc (length xs + length zs)"
    by (simp add: dict_inv_def)
  have dom': "dom (values_d s) - {ID y} = ID ` set xs \<union> ID ` set zs"
    using dom dist by auto
  have "ID y \<in> dom (values_d s)" using dom by simp
  then have "card (dom (values_d s) - {ID y}) = card (dom (values_d s)) - 1"
    using fin by (metis card_Diff_singleton)
  then have "card (dom (values_d s) - {ID y}) = length xs + length zs"
    using card by simp
  then have card': "card (ID ` set xs \<union> ID ` set zs) = length xs + length zs"
    by (simp only: dom')
  have len: "length (keys_d s) = Suc (length xs + length zs)"
    using ks by simp
  show ?thesis
    by (simp add: dict_inv_def xs_def [symmetric] y_def [symmetric] zs_def [symmetric]
        len dist dom' card' image_Un)
qed

lemma Del_loop_None: "Del_loop ks h i = None \<longleftrightarrow> h \<notin> ID ` set ks"
  by (induction ks arbitrary: i) auto

lemma Del_loop_Some:
  "Del_loop ks h i = Some j \<Longrightarrow> i \<le> j \<and> j - i < length ks \<and> ID (ks ! (j - i)) = h"
proof (induction ks arbitrary: i)
  case Nil
  then show ?case by simp
next
  case (Cons k ks)
  show ?case
  proof (cases "ID k = h")
    case True
    with Cons.prems show ?thesis by simp
  next
    case False
    with Cons.prems have "Del_loop ks h (Suc i) = Some j" by simp
    from Cons.IH [OF this] have "Suc i \<le> j" "j - Suc i < length ks" "ID (ks ! (j - Suc i)) = h"
      by auto
    moreover from \<open>Suc i \<le> j\<close> have "j - i = Suc (j - Suc i)" by arith
    ultimately show ?thesis by simp
  qed
qed

lemma GetKeyID_None [simp]: "GetKeyID None key = (0, False)"
  by (simp add: GetKeyID_def)

lemma GetKeyID_True:
  "GetKeyID d key = (h, True) \<Longrightarrow>
   \<exists>s k. d = Some s \<and> size_d s \<noteq> 0 \<and> MakeKey key = Some k \<and> ID k = h \<and> values_d s h \<noteq> None"
  by (cases d) (auto simp: GetKeyID_def split: if_splits option.splits)

lemma Del_absent: "snd (GetKeyID d key) = False \<Longrightarrow> Del d key = Inr (False, d)"
  by (cases "GetKeyID d key") (simp add: Del_def)

lemma Del_no_panic: "\<exists>b d'. Del d key = Inr (b, d')"
proof (cases "GetKeyID d key")
  case (Pair h ok)
  show ?thesis
  proof (cases ok)
    case False
    with Pair show ?thesis by (auto simp: Del_def)
  next
    case True
    with Pair have "GetKeyID d key = (h, True)" by simp
    then obtain s where d: "d = Some s"
      using GetKeyID_True by blast
    define idx where "idx = (case Del_loop (keys_d s) h 0 of None \<Rightarrow> 0 | Some i \<Rightarrow> int i)"
    have nonneg: "0 \<le> idx" by (simp add: idx_def split: option.splits)
    show ?thesis
    proof (cases "idx \<ge> int (length (keys_d s))")
      case True
      then show ?thesis using Pair \<open>ok\<close> d by (auto simp: Del_def idx_def Let_def)
    next
      case False
      then have lt: "idx < int (length (keys_d s))" by simp
      obtain s' where "deleteItem (Some s) idx = Inr (Some s')"
        using deleteItem_no_panic [OF nonneg lt] by blast
      then show ?thesis
        using Pair \<open>ok\<close> d lt nonneg
        by (auto simp: Del_def idx_def [symmetric] at_in_range Let_def)
    qed
  qed
qed

lemma Del_present:
  assumes inv: "dict_inv s" and g: "GetKeyID (Some s) key = (h, True)"
  shows "\<exists>i < length (keys_d s). ID (keys_d s ! i) = h \<and>
           Del (Some s) key =
             Inr (True, Some (s\<lparr>values_d := (values_d s)(h := None),
                                keys_d := take i (keys_d s) @ drop (Suc i) (keys_d s),
                                size_d := int (length (keys_d s)) - 1,
                                version_d := version_d s + 1\<rparr>))"
proof -
  from GetKeyID_True [OF g] have nz: "size_d s \<noteq> 0" and "values_d s h \<noteq> None" by auto
  then have "h \<in> dom (values_d s)" by (simp add: domIff)
  with inv have "h \<in> ID ` set (keys_d s)" by (simp add: dict_inv_def)
  then obtain j where j: "Del_loop (keys_d s) h 0 = Some j"
    using Del_loop_None [of "keys_d s" h 0] by (cases "Del_loop (keys_d s) h 0") auto
  from Del_loop_Some [OF j] have lt: "j < length (keys_d s)" and id: "ID (keys_d s ! j) = h"
    by auto
  from inv have sz: "size_d s = int (length (keys_d s))" by (simp add: dict_inv_def)
  have "deleteItem (Some s) (int j) =
     Inr (Some (s\<lparr>values_d := (values_d s)(ID (keys_d s ! nat (int j)) := None),
                 keys_d := take (nat (int j)) (keys_d s) @ drop (nat (int j) + 1) (keys_d s),
                 size_d := int (length (keys_d s)) - 1,
                 version_d := version_d s + 1\<rparr>))"
    by (rule deleteItem_in_range) (use nz lt sz in auto)
  then have "Del (Some s) key =
             Inr (True, Some (s\<lparr>values_d := (values_d s)(h := None),
                                keys_d := take j (keys_d s) @ drop (Suc j) (keys_d s),
                                size_d := int (length (keys_d s)) - 1,
                                version_d := version_d s + 1\<rparr>))"
    using g j lt id by (simp add: Del_def at_in_range Let_def)
  with lt id show ?thesis by blast
qed

lemma Del_inv:
  assumes inv: "dict_inv s"
  shows "\<exists>b s'. Del (Some s) key = Inr (b, Some s') \<and> dict_inv s'"
proof (cases "GetKeyID (Some s) key")
  case (Pair h ok)
  show ?thesis
  proof (cases ok)
    case False
    with Pair inv show ?thesis by (auto simp: Del_absent)
  next
    case True
    with Pair have g: "GetKeyID (Some s) key = (h, True)" by simp
    from Del_present [OF inv g] obtain i where i: "i < length (keys_d s)"
      and id: "ID (keys_d s ! i) = h"
      and del: "Del (Some s) key =
             Inr (True, Some (s\<lparr>values_d := (values_d s)(h := None),
                                keys_d := take i (keys_d s) @ drop (Suc i) (keys_d s),
                                size_d := int (length (keys_d s)) - 1,
                                version_d := version_d s + 1\<rparr>))"
      by blast
    from dict_inv_delete [OF inv i, of "version_d s + 1"] id del show ?thesis by auto
  qed
qed

subsection \<open>PopItem\<close>

lemma PopItem_None: "PopItem None = Inr (None, None)"
  by (simp add: PopItem_def)

lemma PopItem_absent:
  "size_d s = 0 \<or> keys_d s = [] \<Longrightarrow> PopItem (Some s) = Inr (None, Some s)"
  by (auto simp: PopItem_def)

lemma PopItem_last:
  assumes "size_d s \<noteq> 0" and "keys_d s \<noteq> []"
  shows "\<exists>s'. PopItem (Some s) =
           Inr (Some (Item (VString (Name (last (keys_d s))))
                           (index (values_d s) (ID (last (keys_d s))))), Some s')"
proof -
  let ?i = "int (length (keys_d s)) - 1"
  from assms have range: "0 \<le> ?i" "?i < int (length (keys_d s))"
    by (cases "keys_d s"; simp)+
  have "nat ?i = length (keys_d s) - 1" by arith
  then have nth: "keys_d s ! nat ?i = last (keys_d s)"
    using assms by (simp add: last_conv_nth)
  obtain s' where "deleteItem (Some s) ?i = Inr (Some s')"
    using deleteItem_no_panic [OF range] by blast
  then show ?thesis
    using assms range nth by (simp add: PopItem_def at_in_range Let_def)
qed

lemma PopItem_no_panic: "\<exists>r d'. PopItem d = Inr (r, d')"
proof (cases d)
  case None
  then show ?thesis by (simp add: PopItem_None)
next
  case (Some s)
  show ?thesis
  proof (cases "size_d s = 0 \<or> keys_d s = []")
    case True
    then show ?thesis using Some by (auto simp: PopItem_absent)
  next
    case False
    then show ?thesis using Some PopItem_last [of s] by auto
  qed
qed

lemma Items_snapshot_butlast:
  assumes "distinct (map ID (keys_d s))" and "keys_d s \<noteq> []"
  shows "Items_snapshot (s\<lparr>values_d := (values_d s)(ID (last (keys_d s)) := None),
                          keys_d := butlast (keys_d s), size_d := n, version_d := m\<rparr>)
         = butlast (Items_snapshot s)"
proof -
  obtain ks k where ks: "keys_d s = ks @ [k]"
    using assms(2) by (metis append_butlast_last_id)
  with assms(1) have "ID k \<notin> ID ` set ks" by simp
  then have "\<And>x. x \<in> set ks \<Longrightarrow> ID x \<noteq> ID k" by (metis image_eqI)
  then show ?thesis
    by (simp add: Items_snapshot_def ks index_def)
qed

lemma PopItem_inv:
  assumes inv: "dict_inv s" and ne: "keys_d s \<noteq> []"
  shows "\<exists>s'. PopItem (Some s) = Inr (Some (last (Items_snapshot s)), Some s') \<and>
              dict_inv s' \<and>
              Items_snapshot s' = butlast (Items_snapshot s) \<and>
              keys_d s' = butlast (keys_d s) \<and>
              Version s' = Version s + 1"
proof -
  let ?n = "length (keys_d s)"
  let ?i = "int ?n - 1"
  let ?s' = "s\<lparr>values_d := (values_d s)(ID (last (keys_d s)) := None),
               keys_d := butlast (keys_d s),
               size_d := int ?n - 1,
               version_d := version_d s + 1\<rparr>"
  from inv have sz: "size_d s = int ?n" by (simp add: dict_inv_def)
  from ne have pos: "0 < ?n" by simp
  then have i: "nat ?i = ?n - 1" "?n - 1 < ?n" "0 \<le> ?i" "?i < int ?n" by auto
  have nth: "keys_d s ! (?n - 1) = last (keys_d s)"
    using ne by (simp add: last_conv_nth)
  have td: "take (?n - 1) (keys_d s) @ drop (Suc (?n - 1)) (keys_d s) = butlast (keys_d s)"
    using pos by (simp add: butlast_conv_take)
  have del: "deleteItem (Some s) ?i = Inr (Some ?s')"
    using deleteItem_in_range [of s ?i] sz pos i nth td by simp
  have inv': "dict_inv ?s'"
    using dict_inv_delete [OF inv i(2), of "version_d s + 1"] nth td by simp
  have snap: "Items_snapshot ?s' = butlast (Items_snapshot s)"
    using inv ne by (intro Items_snapshot_butlast) (simp_all add: dict_inv_def)
  have last: "last (Items_snapshot s)
              = Item (VString (Name (last (keys_d s)))) (index (values_d s) (ID (last (keys_d s))))"
    using ne by (simp add: Items_snapshot_def last_map)
  have "PopItem (Some s) = Inr (Some (last (Items_snapshot s)), Some ?s')"
    using sz pos i nth del last by (simp add: PopItem_def at_in_range Let_def)
  with inv' snap show ?thesis
    by (intro exI [of _ ?s']) (simp add: Version_def)
qed

lemma PopItem_preserves:
  assumes "dict_inv s" shows "\<exists>r s'. PopItem (Some s) = Inr (r, Some s') \<and> dict_inv s'"
proof (cases "keys_d s = []")
  case True
  with assms show ?thesis by (auto simp: PopItem_absent)
next
  case False
  from PopItem_inv [OF assms False] show ?thesis by blast
qed

subsection \<open>Clear, Get, Pop\<close>

lemma Clear_None: "Clear None = (False, None)"
  by (simp add: Clear_def)

lemma Clear_Some:
  "Clear (Some s) =
     (if size_d s = 0 then (False, Some s)
      else (True, Some (s\<lparr>size_d := 0, version_d := version_d s + 1,
                          keys_d := [], values_d := Map.empty\<rparr>)))"
  by (simp add: Clear_def)

lemma Clear_preserves:
  assumes "dict_inv s" shows "\<exists>b s'. Clear (Some s) = (b, Some s') \<and> dict_inv s'"
  using assms by (auto simp: Clear_Some dict_inv_def)

lemma Get_empty: "IsEmpty d \<Longrightarrow> Get d key alt = Inr VNil"
  by (simp add: Get_def)

lemma Get_present:
  "GetKeyID d key = (h, True) \<Longrightarrow> Get d key alt = Inr (index (values_d (the d)) h)"
  by (auto simp: Get_def dest: GetKeyID_True)

lemma Get_one_alt: "\<exists>v. Get d key (Some (a # as)) = Inr v"
  by (cases "GetKeyID d key") (auto simp: Get_def split: bool.splits)

lemma Pop_preserves:
  assumes "dict_inv s" shows "\<exists>r s'. Pop (Some s) key alt = Inr (r, Some s') \<and> dict_inv s'"
proof -
  obtain v where g: "Get (Some s) key (Some [VSlice alt]) = Inr v"
    using Get_one_alt by blast
  obtain b s' where d: "Del (Some s) key = Inr (b, Some s')" and inv': "dict_inv s'"
    using Del_inv [OF assms] by blast
  show ?thesis
    using g d inv' assms by (cases "v = VNil") (auto simp: Pop_def)
qed

subsection \<open>Update, New\<close>

lemma dict_inv_Update_item: "dict_inv s \<Longrightarrow> dict_inv (Update_item deq s item)"
  by (simp add: Update_item_def Let_def dict_inv_Set)

lemma dict_inv_foldl:
  "(\<And>s x. dict_inv s \<Longrightarrow> dict_inv (f s x)) \<Longrightarrow> dict_inv s \<Longrightarrow> dict_inv (foldl f s xs)"
  by (induction xs arbitrary: s) auto

lemma dict_inv_Update_arg: "dict_inv s \<Longrightarrow> dict_inv (Update_arg deq s a)"
  by (cases a) (auto intro!: dict_inv_foldl dict_inv_Set dict_inv_Update_item)

lemma Update_preserves:
  assumes "dict_inv s"
  shows "\<exists>b s'. Update deq (Some s) vargs = Inr (b, Some s') \<and> dict_inv s'"
  using assms
  by (cases vargs) (auto simp: Update_def Let_def intro!: dict_inv_foldl dict_inv_Update_arg)

lemma dict_inv_New: "dict_inv (New deq vargs)"
  by (cases vargs)
     (auto simp: New_def dict_inv_empty_Dict intro!: dict_inv_foldl dict_inv_Update_arg)

lemma New_Update: "Update deq (Some empty_Dict) vargs = Inr (b, d') \<Longrightarrow> d' = Some (New deq vargs)"
  by (cases vargs) (auto simp: Update_def New_def Let_def)


subsection \<open>Reading what was written\<close>

lemma MakeKey_eq:
  "MakeKey v =
     (if isValidKeyType v \<and> toString v \<noteq> []
      then Some \<lparr>ID = fnv1a (toString v), Name = toString v\<rparr> else None)"
  by (simp add: MakeKey_def Let_def)

lemma values_d_Set:
  "MakeKey k = Some key \<Longrightarrow> values_d (Set deq (Some s) k v) (ID key) = Some v"
  by (cases "values_d s (ID key)") (simp_all add: Set_new Set_old)

lemma dict_inv_size_pos:
  assumes "dict_inv s" and "values_d s h = Some v"
  shows "size_d s \<noteq> 0"
proof -
  from assms(2) have "h \<in> dom (values_d s)" by (simp add: domIff)
  with assms(1) have "keys_d s \<noteq> []" by (auto simp: dict_inv_def)
  with assms(1) show ?thesis by (simp add: dict_inv_size_zero)
qed

lemma Get_Set:
  assumes inv: "dict_inv s" and k: "MakeKey k = Some key" and k': "MakeKey k' = Some key"
  shows "Get (Some (Set deq (Some s) k v)) k' alt = Inr v"
proof -
  let ?s' = "Set deq (Some s) k v"
  have val: "values_d ?s' (ID key) = Some v" using k by (rule values_d_Set)
  have "dict_inv ?s'" using inv by (rule dict_inv_Set)
  then have "size_d ?s' \<noteq> 0" using val by (rule dict_inv_size_pos)
  then have "GetKeyID (Some ?s') k' = (ID key, True)"
    using val k' by (simp add: GetKeyID_def)
  then show ?thesis using val by (simp add: Get_present index_def)
qed

text \<open>
  C1. On a container that satisfies the invariants of the data model (as every container
  made by \<^verbatim>\<open>New\<close> and the public operations does), and for a key the key codec accepts,
  \<^verbatim>\<open>Get(k)\<close> right after \<^verbatim>\<open>Set(k, v)\<close> returns \<open>v\<close>, whatever alternate is passed. The same
  holds for the container \<^verbatim>\<open>Set\<close> makes and returns when its receiver is nil.
\<close>

theorem Set_then_Get:
  assumes "dict_inv s" and "MakeKey k \<noteq> None"
  shows "Get (Some (Set DeepEqual (Some s) k v)) k alt = Inr v \<and>
         Get (Some (Set DeepEqual None k v)) k alt = Inr v"
proof -
  from assms(2) obtain key where key: "MakeKey k = Some key" by auto
  show ?thesis
    using Get_Set [OF assms(1) key key] Get_Set [OF dict_inv_empty_Dict key key]
    by (simp add: Set_None)
qed

theorem Set_then_Get_witness:
  "Get (Some (Set (=) (Some (New (=) (Some [AVal (VInt KInt 7)]))) (VString ''a'') (VInt KInt 1)))
       (VString ''a'') None = Inr (VInt KInt 1)"
proof -
  have "MakeKey (VString ''a'') \<noteq> None" by (simp add: MakeKey_eq)
  from Set_then_Get [OF dict_inv_New this] show ?thesis by simp
qed

subsection \<open>The version counter\<close>









subsection \<open>Identities\<close>

lemma FormatInt_123: "FormatInt 123 = ''123''"
  by (simp add: FormatInt_def FormatUint.simps digit_def)

lemma MakeKey_same_text:
  "MakeKey a \<noteq> None \<Longrightarrow> MakeKey b \<noteq> None \<Longrightarrow> toString a = toString b \<Longrightarrow> MakeKey a = MakeKey b"
  by (simp add: MakeKey_eq split: if_splits)

text \<open>
  C3. The integer 123 (of any signed integer type) and the string \<open>''123''\<close> make the same
  key, hash and name; on a container that satisfies the invariants, a value set under
  one of them is what \<^verbatim>\<open>Get\<close> returns under the other; and any two values the key codec
  accepts and \<^verbatim>\<open>toString\<close> gives the same text make the same key.
\<close>

theorem same_text_same_identity:
  "MakeKey (VInt ik 123) = Some \<lparr>ID = fnv1a ''123'', Name = ''123''\<rparr> \<and>
   MakeKey (VString ''123'') = Some \<lparr>ID = fnv1a ''123'', Name = ''123''\<rparr> \<and>
   (dict_inv s \<longrightarrow>
      Get (Some (Set DeepEqual (Some s) (VInt ik 123) v)) (VString ''123'') alt = Inr v \<and>
      Get (Some (Set DeepEqual (Some s) (VString ''123'') v)) (VInt ik 123) alt = Inr v) \<and>
   (MakeKey a \<noteq> None \<and> MakeKey b \<noteq> None \<and> toString a = toString b \<longrightarrow> MakeKey a = MakeKey b)"
proof -
  have i: "MakeKey (VInt ik 123) = Some \<lparr>ID = fnv1a ''123'', Name = ''123''\<rparr>"
    by (simp add: MakeKey_eq FormatInt_123)
  have s: "MakeKey (VString ''123'') = Some \<lparr>ID = fnv1a ''123'', Name = ''123''\<rparr>"
    by (simp add: MakeKey_eq)
  show ?thesis
    using i s Get_Set [OF _ i s] Get_Set [OF _ s i] MakeKey_same_text [of a b]
    by blast
qed

theorem same_text_same_identity_witness:
  "MakeKey (VInt KInt64 123) = MakeKey (VString ''123'') \<and>
   Get (Some (Set (=) (Some empty_Dict) (VInt KInt64 123) (VString ''x''))) (VString ''123'') None
     = Inr (VString ''x'') \<and>
   Get (Some (Set (=) (Some empty_Dict) (VString ''123'') (VString ''x''))) (VInt KInt64 123) None
     = Inr (VString ''x'') \<and>
   MakeKey (VUint KUint8 5) = MakeKey (VFloat KFloat64 ''5'')"
proof -
  have "MakeKey (VUint KUint8 5) \<noteq> None" "MakeKey (VFloat KFloat64 ''5'') \<noteq> None"
    "toString (VUint KUint8 5) = toString (VFloat KFloat64 ''5'')"
    by (simp_all add: MakeKey_eq FormatUint.simps digit_def)
  with same_text_same_identity [of KInt64 empty_Dict "(=)" "VString ''x''" None
      "VUint KUint8 5" "VFloat KFloat64 ''5''"] dict_inv_empty_Dict
  show ?thesis by simp
qed

subsection \<open>Items on an empty container\<close>

text \<open>
  C10. On the nil pointer and on a container whose size counter is zero, \<^verbatim>\<open>Items\<close> returns
  a channel that is already closed: not the nil channel its comment speaks of, and a
  consumer's first receive reports the end at once, so that a \<^verbatim>\<open>range\<close> over it gets nothing.
\<close>

theorem Items_empty_closed:
  "IsEmpty d \<Longrightarrow>
     Items d = ClosedChan \<and> Items d \<noteq> NilChan \<and>
     recv (Items d) = Some (None, ClosedChan) \<and> range_chan (Items d) = []"
  by (simp add: Items_def)

theorem Items_empty_closed_witness:
  "Items None = ClosedChan \<and> recv (Items None) = Some (None, ClosedChan) \<and>
   Items (Some (New (=) None)) = ClosedChan \<and>
   Items (Some (New (=) None)) \<noteq> NilChan \<and>
   range_chan (Items (Some (New (=) None))) = []"
proof -
  have "IsEmpty None" and "IsEmpty (Some (New (=) None))"
    by (simp_all add: New_def empty_Dict_def)
  from this [THEN Items_empty_closed] show ?thesis by simp
qed

subsection \<open>The invariants\<close>

text \<open>
  C7. The container \<^verbatim>\<open>New\<close> returns satisfies the invariants, and so does the container
  \<^verbatim>\<open>Set\<close> makes on a nil receiver; on a container that satisfies them, each of \<^verbatim>\<open>Set\<close>,
  \<^verbatim>\<open>Del\<close>, \<^verbatim>\<open>Pop\<close>, \<^verbatim>\<open>PopItem\<close>, \<^verbatim>\<open>Clear\<close> and \<^verbatim>\<open>Update\<close> returns without a panic and leaves
  a container that satisfies them: the order sequence is as long as the size counter
  says and as the value index has entries, no hash appears twice in the order sequence,
  and the hashes of the order sequence are the keys of the value index.
\<close>

theorem invariants_hold:
  "dict_inv (New DeepEqual vargs) \<and>
   dict_inv (Set DeepEqual None k v) \<and>
   (dict_inv s \<longrightarrow>
      dict_inv (Set DeepEqual (Some s) k v) \<and>
      (\<exists>b s'. Del (Some s) k = Inr (b, Some s') \<and> dict_inv s') \<and>
      (\<exists>r s'. Pop (Some s) k alt = Inr (r, Some s') \<and> dict_inv s') \<and>
      (\<exists>r s'. PopItem (Some s) = Inr (r, Some s') \<and> dict_inv s') \<and>
      (\<exists>b s'. Clear (Some s) = (b, Some s') \<and> dict_inv s') \<and>
      (\<exists>b s'. Update DeepEqual (Some s) vargs = Inr (b, Some s') \<and> dict_inv s'))"
proof (intro conjI impI)
  show "dict_inv (New DeepEqual vargs)" by (rule dict_inv_New)
  show "dict_inv (Set DeepEqual None k v)" by (rule dict_inv_Set_None)
next
  assume inv: "dict_inv s"
  then show "dict_inv (Set DeepEqual (Some s) k v)" by (rule dict_inv_Set)
  from inv show "\<exists>b s'. Del (Some s) k = Inr (b, Some s') \<and> dict_inv s'" by (rule Del_inv)
  from inv show "\<exists>r s'. Pop (Some s) k alt = Inr (r, Some s') \<and> dict_inv s'"
    by (rule Pop_preserves)
  from inv show "\<exists>r s'. PopItem (Some s) = Inr (r, Some s') \<and> dict_inv s'"
    by (rule PopItem_preserves)
  from inv show "\<exists>b s'. Clear (Some s) = (b, Some s') \<and> dict_inv s'"
    by (rule Clear_preserves)
  from inv show "\<exists>b s'. Update DeepEqual (Some s) vargs = Inr (b, Some s') \<and> dict_inv s'"
    by (rule Update_preserves)
qed

lemma dict_inv_AB: "dict_inv AB"
proof -
  have "fnv1a ''A'' \<noteq> fnv1a ''B''"
    by (simp add: fnv1a_def fnv_offset64_def fnv_prime64_def)
  then show ?thesis by (auto simp: dict_inv_def AB_def)
qed

theorem invariants_hold_witness:
  "dict_inv AB \<and>
   dict_inv (Set (=) (Some AB) (VString ''C'') (VInt KInt 3)) \<and>
   (\<exists>b s'. Del (Some AB) (VString ''A'') = Inr (b, Some s') \<and> dict_inv s') \<and>
   (\<exists>r s'. Pop (Some AB) (VString ''A'') None = Inr (r, Some s') \<and> dict_inv s') \<and>
   (\<exists>r s'. PopItem (Some AB) = Inr (r, Some s') \<and> dict_inv s') \<and>
   (\<exists>b s'. Clear (Some AB) = (b, Some s') \<and> dict_inv s') \<and>
   (\<exists>b s'. Update (=) (Some AB) (Some [AVal (VInt KInt 5)]) = Inr (b, Some s') \<and> dict_inv s')"
  using invariants_hold [of "(=)" "Some [AVal (VInt KInt 5)]" "VString ''C''" "VInt KInt 3" AB None]
    invariants_hold [of "(=)" "Some [AVal (VInt KInt 5)]" "VString ''A''" "VInt KInt 3" AB None]
    dict_inv_AB
  by simp

subsection \<open>Bulk input and positional keys\<close>














subsection \<open>A stream in flight\<close>







subsection \<open>Last in, first out\<close>

lemma Items_snapshot_Set_new:
  assumes inv: "dict_inv s" and k: "MakeKey k = Some key" and new: "values_d s (ID key) = None"
  shows "Items_snapshot (Set deq (Some s) k v) = Items_snapshot s @ [Item (VString (Name key)) v]"
proof -
  from new have "ID key \<notin> dom (values_d s)" by (simp add: domIff)
  with inv have "ID key \<notin> ID ` set (keys_d s)" by (simp add: dict_inv_def)
  then have "\<And>x. x \<in> set (keys_d s) \<Longrightarrow> ID x \<noteq> ID key" by (metis image_eqI)
  then show ?thesis
    by (simp add: Set_new [OF k new] Items_snapshot_def index_def)
qed

lemma length_Items_snapshot: "length (Items_snapshot s) = length (keys_d s)"
  by (simp add: Items_snapshot_def)

lemma take_Suc_rev: "xs \<noteq> [] \<Longrightarrow> take (Suc n) (rev xs) = last xs # take n (rev (butlast xs))"
  by (cases xs rule: rev_cases) simp_all

lemma PopItems_LIFO:
  assumes "dict_inv s" and "n \<le> length (keys_d s)"
  shows "\<exists>s'. PopItems n (Some s) = Inr (map Some (take n (rev (Items_snapshot s))), Some s') \<and>
              Items_snapshot s' = take (length (keys_d s) - n) (Items_snapshot s) \<and>
              dict_inv s'"
  using assms
proof (induction n arbitrary: s)
  case 0
  then show ?case by (simp add: length_Items_snapshot [symmetric])
next
  case (Suc n)
  then have ne: "keys_d s \<noteq> []" by auto
  from PopItem_inv [OF Suc.prems(1) ne] obtain s1 where
    pop: "PopItem (Some s) = Inr (Some (last (Items_snapshot s)), Some s1)"
    and inv1: "dict_inv s1"
    and snap1: "Items_snapshot s1 = butlast (Items_snapshot s)"
    and keys1: "keys_d s1 = butlast (keys_d s)"
    by blast
  from Suc.prems(2) keys1 have n: "n \<le> length (keys_d s1)" by simp
  from Suc.IH [OF inv1 n] obtain s' where
    pops: "PopItems n (Some s1) = Inr (map Some (take n (rev (Items_snapshot s1))), Some s')"
    and snap': "Items_snapshot s' = take (length (keys_d s1) - n) (Items_snapshot s1)"
    and inv': "dict_inv s'"
    by blast
  have sne: "Items_snapshot s \<noteq> []" using ne by (simp add: Items_snapshot_def)
  have lt: "length (keys_d s) - Suc n < length (Items_snapshot s)"
    using ne by (simp add: length_Items_snapshot)
  have 1: "PopItems (Suc n) (Some s) = Inr (map Some (take (Suc n) (rev (Items_snapshot s))), Some s')"
    using pop pops snap1 by (simp add: take_Suc_rev [OF sne])
  have 2: "Items_snapshot s' = take (length (keys_d s) - Suc n) (Items_snapshot s)"
    using snap' snap1 keys1 lt by (simp add: take_butlast)
  from 1 2 inv' show ?case by blast
qed

text \<open>
  C4, as the code has it. \<^verbatim>\<open>PopItem\<close> never panics, on any receiver and whatever the size
  counter and the order sequence hold. It returns nil and leaves the container as it is
  when the receiver is nil, when the size counter is zero, or when the order sequence is
  empty; otherwise it returns the last entry of the order sequence, found from the actual
  length of the sequence. On a container that satisfies the invariants, an entry set under
  a new identity is the last one, and \<open>n\<close> calls in a row (\<open>n\<close> at most the number of
  entries) return the last \<open>n\<close> entries, the latest first, each call removing the entry it
  returns: after A, B, C were inserted, C, then B, then A.
\<close>

theorem PopItem_last_in_first_out:
  "(\<exists>r d'. PopItem d = Inr (r, d')) \<and>
   PopItem None = Inr (None, None) \<and>
   (size_d s = 0 \<or> keys_d s = [] \<longrightarrow> PopItem (Some s) = Inr (None, Some s)) \<and>
   (size_d s \<noteq> 0 \<and> keys_d s \<noteq> [] \<longrightarrow>
      (\<exists>s'. PopItem (Some s) = Inr (Some (last (Items_snapshot s)), Some s'))) \<and>
   (dict_inv s \<and> MakeKey k = Some key \<and> values_d s (ID key) = None \<longrightarrow>
      Items_snapshot (Set DeepEqual (Some s) k v)
        = Items_snapshot s @ [Item (VString (Name key)) v]) \<and>
   (dict_inv s \<and> n \<le> length (keys_d s) \<longrightarrow>
      (\<exists>s'. PopItems n (Some s) = Inr (map Some (take n (rev (Items_snapshot s))), Some s') \<and>
            Items_snapshot s' = take (length (keys_d s) - n) (Items_snapshot s) \<and>
            dict_inv s'))"
proof (intro conjI impI)
  show "\<exists>r d'. PopItem d = Inr (r, d')" by (rule PopItem_no_panic)
  show "PopItem None = Inr (None, None)" by (rule PopItem_None)
next
  assume "size_d s = 0 \<or> keys_d s = []"
  then show "PopItem (Some s) = Inr (None, Some s)" by (rule PopItem_absent)
next
  assume a: "size_d s \<noteq> 0 \<and> keys_d s \<noteq> []"
  then have "last (Items_snapshot s)
     = Item (VString (Name (last (keys_d s)))) (index (values_d s) (ID (last (keys_d s))))"
    by (simp add: Items_snapshot_def last_map)
  with PopItem_last [of s] a
  show "\<exists>s'. PopItem (Some s) = Inr (Some (last (Items_snapshot s)), Some s')" by simp
next
  assume "dict_inv s \<and> MakeKey k = Some key \<and> values_d s (ID key) = None"
  then show "Items_snapshot (Set DeepEqual (Some s) k v)
        = Items_snapshot s @ [Item (VString (Name key)) v]"
    by (simp add: Items_snapshot_Set_new)
next
  assume "dict_inv s \<and> n \<le> length (keys_d s)"
  then show "\<exists>s'. PopItems n (Some s) = Inr (map Some (take n (rev (Items_snapshot s))), Some s') \<and>
            Items_snapshot s' = take (length (keys_d s) - n) (Items_snapshot s) \<and>
            dict_inv s'"
    by (simp add: PopItems_LIFO)
qed

lemma fnv1a_ABC:
  "fnv1a ''A'' \<noteq> fnv1a ''B''" "fnv1a ''C'' \<noteq> fnv1a ''A''" "fnv1a ''C'' \<noteq> fnv1a ''B''"
  by (simp_all add: fnv1a_def fnv_offset64_def fnv_prime64_def)

lemma Items_snapshot_AB:
  "Items_snapshot AB = [Item (VString ''A'') (VInt KInt 1), Item (VString ''B'') (VInt KInt 2)]"
  using fnv1a_ABC by (simp add: Items_snapshot_def AB_def index_def)

theorem PopItem_last_in_first_out_witness:
  "(\<exists>s'. PopItems 3 (Some (Set (=) (Some AB) (VString ''C'') (VInt KInt 3)))
           = Inr ([Some (Item (VString ''C'') (VInt KInt 3)),
                   Some (Item (VString ''B'') (VInt KInt 2)),
                   Some (Item (VString ''A'') (VInt KInt 1))], Some s') \<and>
         Items_snapshot s' = [] \<and> dict_inv s') \<and>
   PopItem (Some empty_Dict) = Inr (None, Some empty_Dict) \<and>
   (\<exists>s'. PopItem (Some AB) = Inr (Some (Item (VString ''B'') (VInt KInt 2)), Some s'))"
proof -
  let ?k = "\<lparr>ID = fnv1a ''C'', Name = ''C''\<rparr>"
  let ?s = "Set (=) (Some AB) (VString ''C'') (VInt KInt 3)"
  have k: "MakeKey (VString ''C'') = Some ?k" by (simp add: MakeKey_eq)
  have new: "values_d AB (ID ?k) = None" using fnv1a_ABC by (simp add: AB_def)
  have AB: "size_d AB \<noteq> 0" "keys_d AB \<noteq> []" by (simp_all add: AB_def)
  have e: "size_d empty_Dict = 0" by (simp add: empty_Dict_def)
  from PopItem_last_in_first_out [of None AB "VString ''C''" ?k "(=)" "VInt KInt 3" 0]
    dict_inv_AB k new
  have snap: "Items_snapshot ?s = [Item (VString ''A'') (VInt KInt 1),
      Item (VString ''B'') (VInt KInt 2), Item (VString ''C'') (VInt KInt 3)]"
    by (simp add: Items_snapshot_AB)
  then have len: "length (keys_d ?s) = 3"
    by (simp add: length_Items_snapshot [symmetric])
  from PopItem_last_in_first_out [of None ?s "VString ''C''" ?k "(=)" "VInt KInt 3" 3]
    dict_inv_Set [OF dict_inv_AB, of "(=)" "VString ''C''" "VInt KInt 3"] len
  have 1: "\<exists>s'. PopItems 3 (Some ?s)
           = Inr ([Some (Item (VString ''C'') (VInt KInt 3)),
                   Some (Item (VString ''B'') (VInt KInt 2)),
                   Some (Item (VString ''A'') (VInt KInt 1))], Some s') \<and>
         Items_snapshot s' = [] \<and> dict_inv s'"
    by (simp add: snap)
  from PopItem_last_in_first_out [of None empty_Dict "VString ''C''" ?k "(=)" "VInt KInt 3" 0] e
  have 2: "PopItem (Some empty_Dict) = Inr (None, Some empty_Dict)" by simp
  from PopItem_last_in_first_out [of None AB "VString ''C''" ?k "(=)" "VInt KInt 3" 0] AB
  have 3: "\<exists>s'. PopItem (Some AB) = Inr (Some (Item (VString ''B'') (VInt KInt 2)), Some s')"
    by (simp add: Items_snapshot_AB)
  from 1 2 3 show ?thesis by blast
qed

text \<open>
  Against C4 as it is stated: with the two entries A and B in the order sequence and the
  size counter at zero, \<^verbatim>\<open>PopItem\<close> returns nil, so that the size counter, not the length of
  the order sequence, decides that the container is empty; and with the counter at one it
  returns B and leaves B in the container, since \<^verbatim>\<open>deleteItem\<close> checks its bound against
  the counter.
\<close>

theorem PopItem_reads_size_counter:
  "keys_d (drifted 0) = keys_d AB \<and> keys_d AB \<noteq> [] \<and>
   PopItem (Some (drifted 0)) = Inr (None, Some (drifted 0)) \<and>
   PopItem (Some (drifted 1)) = Inr (Some (Item (VString ''B'') (VInt KInt 2)), Some (drifted 1))"
  using fnv1a_ABC
  by (simp add: drifted_def AB_def PopItem_def deleteItem_def at_def Len_def index_def)

subsection \<open>Get and Pop with an alternate\<close>

lemma fnv1a_missing:
  "fnv1a ''missing'' \<noteq> fnv1a ''A''" "fnv1a ''missing'' \<noteq> fnv1a ''B''"
  by (simp_all add: fnv1a_def fnv_offset64_def fnv_prime64_def)

lemma Pop_absent:
  assumes "\<not> IsEmpty d" and "\<not> Key_d d key"
  shows "Pop d key alt = Inr (VSlice alt, d)"
proof -
  from assms(2) obtain h where "GetKeyID d key = (h, False)"
    by (cases "GetKeyID d key") (simp add: Key_d_def)
  with assms(1) show ?thesis
    by (simp add: Pop_def Get_def Del_def)
qed

text \<open>
  C5, at a key that is not in the container. \<^verbatim>\<open>Get("missing", "x")\<close> returns \<open>''x''\<close> and
  \<^verbatim>\<open>Get("missing")\<close> returns nil, but \<^verbatim>\<open>Pop("missing", "x")\<close> returns the slice that holds
  \<open>''x''\<close> and \<^verbatim>\<open>Pop("missing")\<close> returns the nil slice boxed in an interface, which is not
  nil: \<^verbatim>\<open>Pop\<close> hands its whole slice \<^verbatim>\<open>alt\<close> to \<^verbatim>\<open>Get\<close> as the one alternate. The container is
  left as it is. And a key that is stored with the nil value is not removed: \<^verbatim>\<open>Pop\<close> takes
  the nil that \<^verbatim>\<open>Get\<close> returns for "not found".
\<close>

theorem Pop_returns_alt_slice:
  "Get (Some AB) (VString ''missing'') (Some [VString ''x'']) = Inr (VString ''x'') \<and>
   Pop (Some AB) (VString ''missing'') (Some [VString ''x''])
     = Inr (VSlice (Some [VString ''x'']), Some AB) \<and>
   Get (Some AB) (VString ''missing'') None = Inr VNil \<and>
   Pop (Some AB) (VString ''missing'') None = Inr (VSlice None, Some AB) \<and>
   Key_d (Some (Set (=) (Some AB) (VString ''A'') VNil)) (VString ''A'') \<and>
   Pop (Some (Set (=) (Some AB) (VString ''A'') VNil)) (VString ''A'') None
     = Inr (VNil, Some (Set (=) (Some AB) (VString ''A'') VNil))"
proof -
  have m: "MakeKey (VString ''missing'') = Some \<lparr>ID = fnv1a ''missing'', Name = ''missing''\<rparr>"
    and a: "MakeKey (VString ''A'') = Some \<lparr>ID = fnv1a ''A'', Name = ''A''\<rparr>"
    by (simp_all add: MakeKey_eq)
  have g: "GetKeyID (Some AB) (VString ''missing'') = (fnv1a ''missing'', False)"
    using fnv1a_missing by (simp add: GetKeyID_def m AB_def)
  have old: "values_d AB (fnv1a ''A'') = Some (VInt KInt 1)"
    using fnv1a_ABC by (simp add: AB_def)
  let ?s = "Set (=) (Some AB) (VString ''A'') VNil"
  have s: "size_d ?s = 2" "values_d ?s (fnv1a ''A'') = Some VNil"
    using Set_old [OF a, of AB "VInt KInt 1" "(=)" VNil] old by (simp_all add: AB_def)
  then have g': "GetKeyID (Some ?s) (VString ''A'') = (fnv1a ''A'', True)"
    by (simp add: GetKeyID_def a)
  have sz: "size_d AB \<noteq> 0" by (simp add: AB_def)
  show ?thesis
    using g g' s sz by (simp add: Get_def Pop_def Del_def Key_d_def index_def)
qed

text \<open>
  C6, on an empty container. \<^verbatim>\<open>Get("a", "x")\<close> returns nil, not the alternate \<open>''x''\<close>, on the
  container \<^verbatim>\<open>New()\<close> returns and on the nil pointer: \<^verbatim>\<open>Get\<close> returns at \<^verbatim>\<open>d.IsEmpty()\<close>
  before it looks at \<^verbatim>\<open>alt\<close>. On a container with entries the same call returns \<open>''x''\<close>.
\<close>

theorem Get_empty_ignores_alt:
  "Get (Some (New (=) None)) (VString ''a'') (Some [VString ''x'']) = Inr VNil \<and>
   Get None (VString ''a'') (Some [VString ''x'']) = Inr VNil \<and>
   Get (Some AB) (VString ''missing'') (Some [VString ''x'']) = Inr (VString ''x'')"
proof -
  have "GetKeyID (Some AB) (VString ''missing'') = (fnv1a ''missing'', False)"
    using fnv1a_missing by (simp add: GetKeyID_def MakeKey_eq AB_def)
  then show ?thesis
    by (simp add: Get_def New_def empty_Dict_def) (simp add: AB_def)
qed

lemma AB_reached:
  "Set (=) (Some (Set (=) (Some (New (=) None)) (VString ''A'') (VInt KInt 1)))
       (VString ''B'') (VInt KInt 2) = AB"
  using fnv1a_ABC by (simp add: Set_def MakeKey_eq New_def empty_Dict_def AB_def)

end
